theory Spec2Isabelle
  imports Complex_Main "HOL-Library.Sublist"
begin

section \<open>Values of the JavaScript runtime that the handler computes with\<close>

text \<open>
  A JavaScript number is a double. The only arithmetic of the events handler is
  \<open>monthNum - 1\<close>, compared with a month index between 0 and 11; on that comparison the
  rounding of doubles changes nothing, so a finite number is kept as its exact rational
  value. \<open>+0\<close> and \<open>-0\<close> are one value: \<open>===\<close> does not tell them apart.
\<close>

datatype jsnum = NaN | PosInf | NegInf | Fin rat

text \<open>The binary \<open>-\<close> on numbers.\<close>

fun js_minus :: "jsnum \<Rightarrow> jsnum \<Rightarrow> jsnum" where
  "js_minus NaN b = NaN"
| "js_minus a NaN = NaN"
| "js_minus (Fin a) (Fin b) = Fin (a - b)"
| "js_minus (Fin a) PosInf = NegInf"
| "js_minus (Fin a) NegInf = PosInf"
| "js_minus PosInf PosInf = NaN"
| "js_minus PosInf b = PosInf"
| "js_minus NegInf NegInf = NaN"
| "js_minus NegInf b = NegInf"

text \<open>
  A destructured array element may be missing; then the variable holds \<open>undefined\<close>,
  which is \<open>None\<close> here. \<open>ToNumber\<close> is the conversion that \<open>-\<close> applies to its
  operands, \<open>strict_equals\<close> is \<open>===\<close> with a number on the left: it is false against
  \<open>undefined\<close>, false whenever a side is \<open>NaN\<close>, and equality of the values otherwise.
\<close>

definition ToNumber :: "jsnum option \<Rightarrow> jsnum" where
  "ToNumber v = (case v of None \<Rightarrow> NaN | Some x \<Rightarrow> x)"

definition strict_equals :: "jsnum \<Rightarrow> jsnum option \<Rightarrow> bool" where
  "strict_equals a v =
     (case v of None \<Rightarrow> False | Some b \<Rightarrow> a \<noteq> NaN \<and> b \<noteq> NaN \<and> a = b)"

text \<open>\<open>Boolean\<close> on a string: every string but the empty one is truthy.\<close>

definition Boolean :: "string \<Rightarrow> bool" where
  "Boolean s = (s \<noteq> [])"

text \<open>
  \<open>s.split(c)\<close> with a one-character separator: the pieces between the separators, the
  empty pieces included; a string without the separator is its own single piece.
\<close>

fun split :: "char \<Rightarrow> string \<Rightarrow> string list" where
  "split c [] = [[]]"
| "split c (x # xs) =
     (if x = c then [] # split c xs
      else (case split c xs of p # ps \<Rightarrow> (x # p) # ps | [] \<Rightarrow> [[x]]))"

text \<open>Reading the element at an index of an array: \<open>undefined\<close> past the end.\<close>

fun element :: "'a list \<Rightarrow> nat \<Rightarrow> 'a option" where
  "element [] i = None"
| "element (x # xs) 0 = Some x"
| "element (x # xs) (Suc i) = element xs i"

text \<open>
  A \<open>Date\<close> object, as far as the handler reads it: either the invalid date, or a date
  with its full year and its month in the local timezone of the process, which is the
  timezone all calendar months of the service are read in. \<open>getMonth\<close> counts months
  from 0; both getters give \<open>NaN\<close> on the invalid date.
\<close>

datatype month_of_year =
  January | February | March | April | May | June
  | July | August | September | October | November | December

fun month_index :: "month_of_year \<Rightarrow> nat" where
  "month_index January = 0"
| "month_index February = 1"
| "month_index March = 2"
| "month_index April = 3"
| "month_index May = 4"
| "month_index June = 5"
| "month_index July = 6"
| "month_index August = 7"
| "month_index September = 8"
| "month_index October = 9"
| "month_index November = 10"
| "month_index December = 11"

datatype Date = Invalid_Date | Local_Date int month_of_year

fun getFullYear :: "Date \<Rightarrow> jsnum" where
  "getFullYear Invalid_Date = NaN"
| "getFullYear (Local_Date y m) = Fin (of_int y)"

fun getMonth :: "Date \<Rightarrow> jsnum" where
  "getMonth Invalid_Date = NaN"
| "getMonth (Local_Date y m) = Fin (of_nat (month_index m))"

section \<open>The event store\<close>

text \<open>
  Events with their relations resolved. Of the fields of an event, a venue and a genre,
  the records keep the slugs, which the route and the lookup by slug read, the start
  time and a display name. \<open>startTime\<close> holds the date that
  \<open>new Date(event.startTime)\<close> builds.
\<close>

record genre =
  slug :: string
  name :: string

record venue =
  slug :: string
  name :: string

record event =
  slug :: string
  title :: string
  startTime :: Date
  venue :: venue
  genres :: "genre list"

section \<open>The events route\<close>

text \<open>
  The query string is a list of name and value pairs; \<open>searchParams.get\<close> gives the
  value of the first pair with the name, or \<open>null\<close> (\<open>None\<close>) when there is none.
\<close>

type_synonym URLSearchParams = "(string \<times> string) list"

definition get :: "URLSearchParams \<Rightarrow> string \<Rightarrow> string option" where
  "get searchParams k = map_of searchParams k"

record response =
  status :: nat
  body :: "event list"

definition NextResponse_json :: "event list \<Rightarrow> response" where
  "NextResponse_json data = \<lparr>status = 200, body = data\<rparr>"

text \<open>
  The handler \<open>GET\<close> of the events route. \<open>Number\<close>, the runtime's conversion of a string
  to a number, and \<open>mockEvents\<close>, the imported store, are its parameters beside the
  query string of the request.
\<close>

definition GET :: "(string \<Rightarrow> jsnum) \<Rightarrow> event list \<Rightarrow> URLSearchParams \<Rightarrow> response" where
  "GET Number mockEvents searchParams =
     (let month = get searchParams ''month'';
          genres = (case get searchParams ''genres'' of
                      None \<Rightarrow> []
                    | Some s \<Rightarrow> filter Boolean (split CHR '','' s));
          venues = (case get searchParams ''venues'' of
                      None \<Rightarrow> []
                    | Some s \<Rightarrow> filter Boolean (split CHR '','' s));
          filteredEvents = mockEvents;
          filteredEvents =
            (case month of
               None \<Rightarrow> filteredEvents
             | Some m \<Rightarrow>
                 if Boolean m then
                   (let nums = map Number (split CHR ''-'' m);
                        yearNum = element nums 0;
                        monthNum = element nums 1
                    in filter (\<lambda>event.
                         let start = startTime event
                         in strict_equals (getFullYear start) yearNum
                            \<and> strict_equals (getMonth start)
                                 (Some (js_minus (ToNumber monthNum) (Fin 1))))
                       filteredEvents)
                 else filteredEvents);
          filteredEvents =
            (if length genres > 0 then
               filter (\<lambda>event. list_ex (\<lambda>genre. genre.slug genre \<in> set genres)
                                  (event.genres event))
                 filteredEvents
             else filteredEvents);
          filteredEvents =
            (if length venues > 0 then
               filter (\<lambda>event. venue.slug (event.venue event) \<in> set venues) filteredEvents
             else filteredEvents)
      in NextResponse_json filteredEvents)"

subsection \<open>The parts of the handler, named\<close>

text \<open>
  The value of \<open>genres\<close> and of \<open>venues\<close> (\<open>get(..)?.split(',').filter(Boolean) || []\<close>),
  the callback of the month filter with the two numbers it is closed over, and the three
  guarded filters as predicates on an event. \<open>GET_eq\<close> below shows that the handler is
  the one filter with their conjunction.
\<close>

definition slug_list :: "string option \<Rightarrow> string list" where
  "slug_list v = (case v of None \<Rightarrow> [] | Some s \<Rightarrow> filter Boolean (split CHR '','' s))"

definition month_matches :: "(string \<Rightarrow> jsnum) \<Rightarrow> string \<Rightarrow> event \<Rightarrow> bool" where
  "month_matches Number m event =
     (let nums = map Number (split CHR ''-'' m) in
      strict_equals (getFullYear (startTime event)) (element nums 0)
      \<and> strict_equals (getMonth (startTime event))
           (Some (js_minus (ToNumber (element nums 1)) (Fin 1))))"

definition month_ok :: "(string \<Rightarrow> jsnum) \<Rightarrow> string option \<Rightarrow> event \<Rightarrow> bool" where
  "month_ok Number month event =
     (case month of None \<Rightarrow> True
      | Some m \<Rightarrow> if Boolean m then month_matches Number m event else True)"

definition genres_ok :: "string list \<Rightarrow> event \<Rightarrow> bool" where
  "genres_ok gs event =
     (if length gs > 0
      then list_ex (\<lambda>genre. genre.slug genre \<in> set gs) (event.genres event)
      else True)"

definition venues_ok :: "string list \<Rightarrow> event \<Rightarrow> bool" where
  "venues_ok vs event =
     (if length vs > 0 then venue.slug (event.venue event) \<in> set vs else True)"

text \<open>A response is an error result when its status is a client or server error.\<close>

definition is_error :: "response \<Rightarrow> bool" where
  "is_error r = (400 \<le> status r)"

section \<open>The event page\<close>

text \<open>
  Modelled from the spec: \<open>getEventBySlug\<close> of \<open>lib/data/mockEvents\<close>, which the event
  page imports, is not among the sources. The spec has it return the event of the store
  whose slug is the given one, or an explicit absence (\<open>None\<close>) when there is none.
\<close>

definition getEventBySlug :: "event list \<Rightarrow> string \<Rightarrow> event option" where
  "getEventBySlug mockEvents s = find (\<lambda>event. event.slug event = s) mockEvents"

text \<open>
  \<open>EventPage\<close> up to the point where it starts to render: the not-found page of the
  framework when the lookup gives nothing, the view of the event otherwise.
\<close>

datatype page = NotFound | EventView event

definition EventPage :: "event list \<Rightarrow> string \<Rightarrow> page" where
  "EventPage mockEvents s =
     (case getEventBySlug mockEvents s of
        None \<Rightarrow> NotFound
      | Some event \<Rightarrow> EventView event)"

section \<open>Month tokens, slug lists and example data\<close>

text \<open>
  A month token of the form \<open>YYYY-MM\<close> is four decimal digits, a hyphen and two decimal
  digits; its year and month are the decimal values of the two groups.
\<close>

definition digit :: "char \<Rightarrow> bool" where
  "digit c = (c \<in> set ''0123456789'')"

definition decimal :: "string \<Rightarrow> nat" where
  "decimal s = foldl (\<lambda>n c. 10 * n + (of_char c - 48)) 0 s"

definition month_token :: "string \<Rightarrow> bool" where
  "month_token tok =
     (length tok = 7 \<and> list_all digit (take 4 tok) \<and> tok ! 4 = CHR ''-''
      \<and> list_all digit (drop 5 tok))"

definition token_year :: "string \<Rightarrow> nat" where
  "token_year tok = decimal (take 4 tok)"

definition token_month :: "string \<Rightarrow> nat" where
  "token_month tok = decimal (drop 5 tok)"

text \<open>
  What is known of the runtime's \<open>Number\<close> where a theorem needs it: on the string at
  hand it gives the decimal value of the string.
\<close>

definition reads_decimal :: "(string \<Rightarrow> jsnum) \<Rightarrow> string \<Rightarrow> bool" where
  "reads_decimal Number s = (Number s = Fin (of_nat (decimal s)))"

text \<open>
  The calendar year and month (1 to 12) of a date in the reference timezone; the invalid
  date has none.
\<close>

fun calendar_month :: "Date \<Rightarrow> (int \<times> nat) option" where
  "calendar_month Invalid_Date = None"
| "calendar_month (Local_Date y m) = Some (y, Suc (month_index m))"

text \<open>
  A malformed month token, in the numbers the handler gets from it: the year or the month
  is not a number (the month also when the token has no second part), or the month is
  none of the whole numbers 1 to 12.
\<close>

fun month_number :: "jsnum \<Rightarrow> bool" where
  "month_number (Fin q) = (1 \<le> q \<and> q \<le> 12 \<and> of_int \<lfloor>q\<rfloor> = q)"
| "month_number v = False"

definition malformed_month :: "(string \<Rightarrow> jsnum) \<Rightarrow> string \<Rightarrow> bool" where
  "malformed_month Number tok =
     (let nums = map Number (split CHR ''-'' tok) in
      ToNumber (element nums 0) = NaN \<or> ToNumber (element nums 1) = NaN
      \<or> \<not> month_number (ToNumber (element nums 1)))"

text \<open>
  A set of slugs travels in a query parameter as the slugs joined with commas; a slug
  that can travel so is not empty and has no comma.
\<close>

fun join :: "string list \<Rightarrow> string" where
  "join [] = []"
| "join [g] = g"
| "join (g # h # gs) = g @ CHR '','' # join (h # gs)"

definition slug_ok :: "string \<Rightarrow> bool" where
  "slug_ok s = (s \<noteq> [] \<and> CHR '','' \<notin> set s)"

text \<open>
  A query with all pairs of one name removed: the request with that parameter omitted.
\<close>

definition omit :: "string \<Rightarrow> URLSearchParams \<Rightarrow> URLSearchParams" where
  "omit k searchParams = filter (\<lambda>p. fst p \<noteq> k) searchParams"

text \<open>
  The store of the spec's example: a rock concert at Pustervik in November 2025 and a
  jazz concert at Nefertiti in December 2025.
\<close>

definition event_1 :: event where
  "event_1 =
     \<lparr>event.slug = ''rock-night'', title = ''Rock Night'',
      startTime = Local_Date 2025 November,
      venue = \<lparr>venue.slug = ''pustervik'', name = ''Pustervik''\<rparr>,
      genres = [\<lparr>genre.slug = ''rock'', name = ''Rock''\<rparr>]\<rparr>"

definition event_2 :: event where
  "event_2 =
     \<lparr>event.slug = ''jazz-evening'', title = ''Jazz Evening'',
      startTime = Local_Date 2025 December,
      venue = \<lparr>venue.slug = ''nefertiti'', name = ''Nefertiti''\<rparr>,
      genres = [\<lparr>genre.slug = ''jazz'', name = ''Jazz''\<rparr>]\<rparr>"

definition example_store :: "event list" where
  "example_store = [event_1, event_2]"

text \<open>
  A conversion for the examples. It reads a non-empty string of decimal digits as the
  runtime's \<open>Number\<close> does and gives \<open>NaN\<close> on every other string; the examples apply
  it to digit strings and to \<open>abc\<close> only, which is no numeric literal.
\<close>

definition Number_dec :: "string \<Rightarrow> jsnum" where
  "Number_dec s =
     (if s \<noteq> [] \<and> list_all digit s then Fin (of_nat (decimal s)) else NaN)"

section \<open>Facts about the parts\<close>

lemmas example_defs = example_store_def event_1_def event_2_def

lemma GET_eq:
  "GET N store ps =
     \<lparr>status = 200,
      body = filter (\<lambda>e. month_ok N (get ps ''month'') e
                        \<and> genres_ok (slug_list (get ps ''genres'')) e
                        \<and> venues_ok (slug_list (get ps ''venues'')) e) store\<rparr>"
  unfolding GET_def Let_def NextResponse_json_def month_ok_def month_matches_def
    genres_ok_def venues_ok_def slug_list_def
  by (auto split: option.splits intro: filter_cong)

lemma get_single: "get [(k, v)] k' = (if k' = k then Some v else None)"
  by (simp add: get_def)

lemma split_no_separator: "c \<notin> set s \<Longrightarrow> split c s = [s]"
  by (induction s) auto

lemma split_append_separator: "c \<notin> set s \<Longrightarrow> split c (s @ c # t) = s # split c t"
  by (induction s) auto

lemma hyphen_no_digit: "\<not> digit CHR ''-''"
  by (simp add: digit_def)

lemma digit_not_hyphen: "list_all digit s \<Longrightarrow> CHR ''-'' \<notin> set s"
  using hyphen_no_digit by (induction s) auto

lemma month_token_split:
  assumes "month_token tok"
  shows "split CHR ''-'' tok = [take 4 tok, drop 5 tok]"
proof -
  have len: "4 < length tok" using assms by (simp add: month_token_def)
  have "take 4 tok @ tok ! 4 # drop (Suc 4) tok = tok"
    using id_take_nth_drop [OF len] by (rule sym)
  moreover have "tok ! 4 = CHR ''-''"
    using assms by (simp add: month_token_def)
  ultimately have tok: "take 4 tok @ CHR ''-'' # drop 5 tok = tok"
    by simp
  have y: "CHR ''-'' \<notin> set (take 4 tok)" and m: "CHR ''-'' \<notin> set (drop 5 tok)"
    using assms by (simp_all add: month_token_def digit_not_hyphen)
  have "split CHR ''-'' (take 4 tok @ CHR ''-'' # drop 5 tok) = [take 4 tok, drop 5 tok]"
    using y m by (simp add: split_append_separator split_no_separator)
  then show ?thesis by (simp only: tok)
qed

lemma rat_month_index_eq:
  "(of_nat i :: rat) = of_nat k - 1 \<longleftrightarrow> Suc i = k"
proof -
  have "(of_nat i :: rat) = of_nat k - 1 \<longleftrightarrow> (of_nat (Suc i) :: rat) = of_nat k"
    by (simp add: algebra_simps)
  then show ?thesis by (simp only: of_nat_eq_iff)
qed

lemma rat_year_eq: "(of_int y :: rat) = of_nat k \<longleftrightarrow> y = int k"
proof -
  have "(of_nat k :: rat) = of_int (int k)" by simp
  then show ?thesis by (simp only: of_int_eq_iff)
qed

lemma month_matches_parts:
  assumes "split CHR ''-'' tok = [y, m]"
    and "N y = Fin (of_nat a)" and "N m = Fin (of_nat b)"
  shows "month_matches N tok e \<longleftrightarrow> calendar_month (startTime e) = Some (int a, b)"
proof (cases "startTime e")
  case Invalid_Date
  then show ?thesis
    by (simp add: month_matches_def assms strict_equals_def)
next
  case (Local_Date yr mo)
  then show ?thesis
    by (simp add: month_matches_def assms strict_equals_def ToNumber_def
        rat_month_index_eq rat_year_eq)
qed

lemma month_matches_token:
  assumes "month_token tok"
    and "reads_decimal N (take 4 tok)" and "reads_decimal N (drop 5 tok)"
  shows "month_matches N tok e \<longleftrightarrow>
           calendar_month (startTime e) = Some (int (token_year tok), token_month tok)"
  unfolding token_year_def token_month_def
  using assms(2,3) unfolding reads_decimal_def
  by (rule month_matches_parts [OF month_token_split [OF assms(1)]])

section \<open>The month filter\<close>

text \<open>
  C1. For a month token \<open>YYYY-MM\<close> whose two groups the runtime reads as their decimal
  values, the query with that month alone returns an event exactly when the event is in
  the store and the calendar year and month of its start, in the reference timezone, are
  the year and the month of the token.
\<close>

theorem month_filter_iff:
  assumes "month_token tok"
    and "reads_decimal N (take 4 tok)" and "reads_decimal N (drop 5 tok)"
  shows "e \<in> set (body (GET N store [(''month'', tok)])) \<longleftrightarrow>
           e \<in> set store \<and>
           calendar_month (startTime e) = Some (int (token_year tok), token_month tok)"
proof -
  have "Boolean tok" using assms(1) by (auto simp: Boolean_def month_token_def)
  then show ?thesis
    using month_matches_token [OF assms]
    by (auto simp: GET_eq get_single month_ok_def slug_list_def genres_ok_def venues_ok_def)
qed

theorem month_filter_iff_witness:
  "month_token ''2025-11'' \<and> reads_decimal Number_dec ''2025''
   \<and> reads_decimal Number_dec ''11''
   \<and> event_1 \<in> set (body (GET Number_dec example_store [(''month'', ''2025-11'')]))
   \<and> event_2 \<notin> set (body (GET Number_dec example_store [(''month'', ''2025-11'')]))"
proof -
  have t: "month_token ''2025-11''"
    by (simp add: month_token_def digit_def)
  have y: "reads_decimal Number_dec (take 4 ''2025-11'')"
    and m: "reads_decimal Number_dec (drop 5 ''2025-11'')"
    by (simp_all add: reads_decimal_def Number_dec_def digit_def)
  have d: "token_year ''2025-11'' = 2025" "token_month ''2025-11'' = 11"
    by (simp_all add: token_year_def token_month_def decimal_def)
  have "event_1 \<in> set (body (GET Number_dec example_store [(''month'', ''2025-11'')]))"
    using month_filter_iff [OF t y m, of event_1 example_store]
    by (simp add: d example_defs)
  moreover have "event_2 \<notin> set (body (GET Number_dec example_store [(''month'', ''2025-11'')]))"
    using month_filter_iff [OF t y m, of event_2 example_store]
    by (simp add: d example_defs)
  ultimately show ?thesis
    using t y m by simp
qed

section \<open>Malformed month tokens\<close>

lemma month_index_less: "month_index m < 12"
  by (cases m) simp_all

lemma getMonth_minus_one:
  assumes "strict_equals (getMonth d) (Some (js_minus v (Fin 1)))"
  shows "month_number v"
proof (cases d)
  case Invalid_Date
  with assms show ?thesis by (simp add: strict_equals_def)
next
  case (Local_Date y m)
  show ?thesis
  proof (cases v)
    case (Fin q)
    with assms Local_Date have "of_nat (month_index m) = q - 1"
      by (simp add: strict_equals_def)
    then have q: "q = of_nat (Suc (month_index m))" by simp
    have "Suc (month_index m) \<le> 12"
      using month_index_less [of m] by simp
    then have "(of_nat (Suc (month_index m)) :: rat) \<le> of_nat 12"
      by (simp only: of_nat_le_iff)
    then have "q \<le> 12" using q by simp
    moreover have "1 \<le> q" using q by simp
    moreover have "of_int \<lfloor>q\<rfloor> = q"
      unfolding q by (simp only: floor_of_nat of_int_of_nat_eq)
    ultimately show ?thesis
      using Fin by simp
  qed (use assms Local_Date in \<open>simp_all add: strict_equals_def\<close>)
qed

lemma malformed_no_match:
  assumes "malformed_month N tok"
  shows "\<not> month_matches N tok e"
proof
  assume mm: "month_matches N tok e"
  let ?nums = "map N (split CHR ''-'' tok)"
  from mm have y: "strict_equals (getFullYear (startTime e)) (element ?nums 0)"
    and m: "strict_equals (getMonth (startTime e))
              (Some (js_minus (ToNumber (element ?nums 1)) (Fin 1)))"
    by (simp_all add: month_matches_def Let_def)
  from y have "ToNumber (element ?nums 0) \<noteq> NaN"
    by (auto simp: strict_equals_def ToNumber_def split: option.splits)
  moreover from m have mn: "month_number (ToNumber (element ?nums 1))"
    by (rule getMonth_minus_one)
  moreover from mn have "ToNumber (element ?nums 1) \<noteq> NaN"
    by auto
  ultimately show False
    using assms by (simp add: malformed_month_def Let_def)
qed

text \<open>
  C2, as the route has it. At the malformed token \<open>2025-13\<close> the query does not return
  an error result: it answers with status 200 and an empty list.
\<close>

theorem malformed_month_is_no_error:
  "malformed_month Number_dec ''2025-13''
   \<and> \<not> is_error (GET Number_dec example_store [(''month'', ''2025-13'')])
   \<and> GET Number_dec example_store [(''month'', ''2025-13'')] = \<lparr>status = 200, body = []\<rparr>"
  by (simp add: malformed_month_def ToNumber_def Number_dec_def digit_def decimal_def
      is_error_def GET_def get_def Boolean_def strict_equals_def NextResponse_json_def
      example_defs)

text \<open>
  C2, amended. For every non-empty month token that is malformed (its year or its month
  is not a number, or its month is none of 1 to 12), the query answers with status 200
  and an empty list, whatever the other parameters are: it matches nothing and reports
  no error.
\<close>

theorem malformed_month_matches_nothing:
  assumes "get ps ''month'' = Some tok" and "tok \<noteq> []" and "malformed_month N tok"
  shows "\<not> is_error (GET N store ps) \<and> status (GET N store ps) = 200
         \<and> body (GET N store ps) = []"
proof -
  have "\<not> month_ok N (get ps ''month'') e" for e
    using assms malformed_no_match [of N tok e] by (simp add: month_ok_def Boolean_def)
  then show ?thesis
    by (simp add: GET_eq is_error_def)
qed

theorem malformed_month_matches_nothing_witness:
  "get [(''month'', ''abc'')] ''month'' = Some ''abc'' \<and> ''abc'' \<noteq> []
   \<and> malformed_month Number_dec ''abc''
   \<and> GET Number_dec example_store [(''month'', ''abc'')] = \<lparr>status = 200, body = []\<rparr>"
proof -
  have g: "get [(''month'', ''abc'')] ''month'' = Some ''abc''"
    by (simp add: get_def)
  have n: "''abc'' \<noteq> []" by simp
  have m: "malformed_month Number_dec ''abc''"
    by (simp add: malformed_month_def ToNumber_def Number_dec_def digit_def)
  show ?thesis
    using g n m malformed_month_matches_nothing [OF g n m, of example_store]
    by simp
qed

section \<open>Slug parameters\<close>

lemma split_join:
  "gs \<noteq> [] \<Longrightarrow> \<forall>g\<in>set gs. CHR '','' \<notin> set g \<Longrightarrow> split CHR '','' (join gs) = gs"
proof (induction gs rule: join.induct)
  case 1
  then show ?case by simp
next
  case (2 g)
  then show ?case by (simp add: split_no_separator)
next
  case (3 g h gs)
  then show ?case by (simp add: split_append_separator)
qed

lemma slug_list_join:
  assumes "gs \<noteq> []" and "list_all slug_ok gs"
  shows "slug_list (Some (join gs)) = gs"
proof -
  have "split CHR '','' (join gs) = gs"
    using assms by (simp add: split_join list_all_iff slug_ok_def)
  moreover have "filter Boolean gs = gs"
    using assms by (simp add: Boolean_def filter_id_conv list_all_iff slug_ok_def)
  ultimately show ?thesis by (simp add: slug_list_def)
qed

lemma split_only_separators: "set s \<subseteq> {c} \<Longrightarrow> filter Boolean (split c s) = []"
  by (induction s) (auto simp: Boolean_def)

lemma get_omit: "get (omit k ps) k' = (if k' = k then None else get ps k')"
  by (induction ps) (auto simp: get_def omit_def)

lemma get_three:
  "get [(''month'', m), (''genres'', g), (''venues'', v)] ''month'' = Some m"
  "get [(''month'', m), (''genres'', g), (''venues'', v)] ''genres'' = Some g"
  "get [(''month'', m), (''genres'', g), (''venues'', v)] ''venues'' = Some v"
  by (simp_all add: get_def)

lemma slug_list_None: "slug_list None = []"
  by (simp add: slug_list_def)

lemma ok_trivial: "month_ok N None e" "genres_ok [] e" "venues_ok [] e"
  by (simp_all add: month_ok_def genres_ok_def venues_ok_def)

lemmas eval_defs = GET_def get_def Boolean_def Number_dec_def digit_def decimal_def
  ToNumber_def strict_equals_def NextResponse_json_def

text \<open>
  C3. For every non-empty list \<open>gs\<close> of genre slugs, sent as the \<open>genres\<close> parameter,
  the query returns an event exactly when the event is in the store and one of its genre
  slugs is among \<open>gs\<close>: the two sets of slugs meet.
\<close>

theorem genres_filter_iff:
  assumes "gs \<noteq> []" and "list_all slug_ok gs"
  shows "e \<in> set (body (GET N store [(''genres'', join gs)])) \<longleftrightarrow>
           e \<in> set store \<and> set (map genre.slug (event.genres e)) \<inter> set gs \<noteq> {}"
proof -
  have "slug_list (get [(''genres'', join gs)] ''genres'') = gs"
    using assms by (simp add: get_single slug_list_join)
  moreover have "get [(''genres'', join gs)] ''month'' = None"
    and "get [(''genres'', join gs)] ''venues'' = None"
    by (simp_all add: get_single)
  ultimately have "body (GET N store [(''genres'', join gs)]) = filter (genres_ok gs) store"
    by (simp add: GET_eq month_ok_def venues_ok_def slug_list_def)
  moreover have "genres_ok gs e \<longleftrightarrow> set (map genre.slug (event.genres e)) \<inter> set gs \<noteq> {}"
    using assms(1) by (auto simp: genres_ok_def list_ex_iff)
  ultimately show ?thesis by simp
qed

theorem genres_filter_iff_witness:
  "[''jazz'', ''blues''] \<noteq> [] \<and> list_all slug_ok [''jazz'', ''blues'']
   \<and> event_2 \<in> set (body (GET Number_dec example_store [(''genres'', ''jazz,blues'')]))
   \<and> event_1 \<notin> set (body (GET Number_dec example_store [(''genres'', ''jazz,blues'')]))"
proof -
  have n: "[''jazz'', ''blues''] \<noteq> []" by simp
  have s: "list_all slug_ok [''jazz'', ''blues'']" by (simp add: slug_ok_def)
  have j: "join [''jazz'', ''blues''] = ''jazz,blues''" by simp
  have "event_2 \<in> set (body (GET Number_dec example_store [(''genres'', ''jazz,blues'')]))"
    using genres_filter_iff [OF n s, of event_2 Number_dec example_store]
    unfolding j by (simp add: example_defs)
  moreover have "event_1 \<notin> set (body (GET Number_dec example_store [(''genres'', ''jazz,blues'')]))"
    using genres_filter_iff [OF n s, of event_1 Number_dec example_store]
    unfolding j by (simp add: example_defs)
  ultimately show ?thesis using n s by simp
qed

text \<open>
  C4. For every non-empty list \<open>vs\<close> of venue slugs, sent as the \<open>venues\<close> parameter,
  the query returns an event exactly when the event is in the store and the slug of its
  venue is among \<open>vs\<close>.
\<close>

theorem venues_filter_iff:
  assumes "vs \<noteq> []" and "list_all slug_ok vs"
  shows "e \<in> set (body (GET N store [(''venues'', join vs)])) \<longleftrightarrow>
           e \<in> set store \<and> venue.slug (event.venue e) \<in> set vs"
proof -
  have "slug_list (get [(''venues'', join vs)] ''venues'') = vs"
    using assms by (simp add: get_single slug_list_join)
  moreover have "get [(''venues'', join vs)] ''month'' = None"
    and "get [(''venues'', join vs)] ''genres'' = None"
    by (simp_all add: get_single)
  ultimately have "body (GET N store [(''venues'', join vs)]) = filter (venues_ok vs) store"
    by (simp add: GET_eq month_ok_def genres_ok_def slug_list_def)
  moreover have "venues_ok vs e \<longleftrightarrow> venue.slug (event.venue e) \<in> set vs"
    using assms(1) by (simp add: venues_ok_def)
  ultimately show ?thesis by simp
qed

theorem venues_filter_iff_witness:
  "[''nefertiti''] \<noteq> [] \<and> list_all slug_ok [''nefertiti'']
   \<and> event_2 \<in> set (body (GET Number_dec example_store [(''venues'', ''nefertiti'')]))
   \<and> event_1 \<notin> set (body (GET Number_dec example_store [(''venues'', ''nefertiti'')]))"
proof -
  have n: "[''nefertiti''] \<noteq> []" by simp
  have s: "list_all slug_ok [''nefertiti'']" by (simp add: slug_ok_def)
  have j: "join [''nefertiti''] = ''nefertiti''" by simp
  have "event_2 \<in> set (body (GET Number_dec example_store [(''venues'', ''nefertiti'')]))"
    using venues_filter_iff [OF n s, of event_2 Number_dec example_store]
    unfolding j by (simp add: example_defs)
  moreover have "event_1 \<notin> set (body (GET Number_dec example_store [(''venues'', ''nefertiti'')]))"
    using venues_filter_iff [OF n s, of event_1 Number_dec example_store]
    unfolding j by (simp add: example_defs)
  ultimately show ?thesis using n s by simp
qed

text \<open>
  C10. A \<open>genres\<close> or \<open>venues\<close> parameter that is present and holds no slug (the empty
  string, or commas only) is as good as absent: the response is the one of the request
  with that parameter omitted.
\<close>

theorem empty_slug_parameter_is_absent:
  assumes "k = ''genres'' \<or> k = ''venues''"
    and "get ps k = Some s" and "set s \<subseteq> {CHR '',''}"
  shows "GET N store ps = GET N store (omit k ps)"
proof -
  have "slug_list (get ps k) = []"
    using assms(2,3) by (simp add: slug_list_def split_only_separators)
  then show ?thesis
    using assms(1) by (auto simp: GET_eq get_omit slug_list_None)
qed

theorem empty_slug_parameter_is_absent_witness:
  "get [(''genres'', '',,''), (''venues'', ''nefertiti'')] ''genres'' = Some '',,''
   \<and> set '',,'' \<subseteq> {CHR '',''}
   \<and> GET Number_dec example_store [(''genres'', '',,''), (''venues'', ''nefertiti'')]
       = GET Number_dec example_store [(''venues'', ''nefertiti'')]"
proof -
  have k: "''genres'' = ''genres'' \<or> ''genres'' = ''venues''" by simp
  have g: "get [(''genres'', '',,''), (''venues'', ''nefertiti'')] ''genres'' = Some '',,''"
    by (simp add: get_def)
  have s: "set '',,'' \<subseteq> {CHR '',''}" by simp
  have o: "omit ''genres'' [(''genres'', '',,''), (''venues'', ''nefertiti'')]
             = [(''venues'', ''nefertiti'')]"
    by (simp add: omit_def)
  show ?thesis
    using g s empty_slug_parameter_is_absent [OF k g s, of Number_dec example_store]
    unfolding o by simp
qed

section \<open>The query as a whole\<close>

text \<open>
  C5. The query with a month, genres and venues returns the events of the store that each
  of the three queries with one of the parameters alone returns: the intersection of the
  three results, in the order of the store. It holds for every value of the three
  parameters, so for every month token of the form \<open>YYYY-MM\<close> and all lists of slugs
  joined with commas.
\<close>

theorem filters_compose:
  "body (GET N store [(''month'', m), (''genres'', g), (''venues'', v)]) =
     filter (\<lambda>e. e \<in> set (body (GET N store [(''month'', m)]))
                \<and> e \<in> set (body (GET N store [(''genres'', g)]))
                \<and> e \<in> set (body (GET N store [(''venues'', v)]))) store"
proof -
  have "body (GET N store [(''month'', m)]) = filter (month_ok N (Some m)) store"
    by (simp add: GET_eq get_single slug_list_None ok_trivial)
  moreover have "body (GET N store [(''genres'', g)])
                   = filter (genres_ok (slug_list (Some g))) store"
    by (simp add: GET_eq get_single slug_list_None ok_trivial)
  moreover have "body (GET N store [(''venues'', v)])
                   = filter (venues_ok (slug_list (Some v))) store"
    by (simp add: GET_eq get_single slug_list_None ok_trivial)
  ultimately show ?thesis
    by (auto simp: GET_eq get_three intro: filter_cong)
qed

theorem filters_compose_witness:
  "body (GET Number_dec example_store
           [(''month'', ''2025-11''), (''genres'', ''jazz''), (''venues'', '''')]) = []"
proof -
  have "body (GET Number_dec example_store [(''month'', ''2025-11'')]) = [event_1]"
    and "body (GET Number_dec example_store [(''genres'', ''jazz'')]) = [event_2]"
    and "body (GET Number_dec example_store [(''venues'', '''')]) = [event_1, event_2]"
    by (simp_all add: eval_defs example_defs)
  moreover have "event_1 \<noteq> event_2"
    by (simp add: example_defs)
  ultimately show ?thesis
    using filters_compose [of Number_dec example_store "''2025-11''" "''jazz''" "''''"]
    by (simp add: example_store_def)
qed

text \<open>
  C6. With no month token and no slug in the genres and in the venues parameter, the
  query returns the whole store, unchanged and in its order.
\<close>

theorem no_parameters_identity:
  assumes "get ps ''month'' = None"
    and "slug_list (get ps ''genres'') = []" and "slug_list (get ps ''venues'') = []"
  shows "GET N store ps = \<lparr>status = 200, body = store\<rparr>"
  using assms by (simp add: GET_eq ok_trivial)

theorem no_parameters_identity_witness:
  "get [] ''month'' = None \<and> slug_list (get [] ''genres'') = []
   \<and> slug_list (get [] ''venues'') = []
   \<and> GET Number_dec example_store [] = \<lparr>status = 200, body = example_store\<rparr>"
proof -
  have m: "get [] ''month'' = None"
    and g: "slug_list (get [] ''genres'') = []"
    and v: "slug_list (get [] ''venues'') = []"
    by (simp_all add: get_def slug_list_def)
  show ?thesis
    using m g v no_parameters_identity [OF m g v, of Number_dec example_store] by simp
qed

text \<open>
  C7. Whatever the parameters are, the returned list is a subsequence of the store:
  events are dropped, never reordered, so two returned events stand in the order they
  have in the store.
\<close>

theorem result_is_subsequence: "subseq (body (GET N store ps)) store"
  by (simp add: GET_eq)

theorem result_is_subsequence_witness:
  "subseq (body (GET Number_dec example_store [(''genres'', ''jazz'')])) [event_1, event_2]"
  using result_is_subsequence [of Number_dec example_store "[(''genres'', ''jazz'')]"]
  by (simp only: example_store_def)



section \<open>Lookup by slug\<close>

text \<open>
  C9. In a store with unique slugs, the lookup returns an event exactly when it is the
  event of the store with the given slug; it returns the explicit absence exactly when no
  event of the store has the slug, and the event page then is the not-found page.
\<close>

theorem getEventBySlug_unique:
  assumes "distinct (map event.slug store)"
  shows "(getEventBySlug store s = Some e \<longleftrightarrow> e \<in> set store \<and> event.slug e = s)
         \<and> (getEventBySlug store s = None \<longleftrightarrow> (\<forall>e\<in>set store. event.slug e \<noteq> s))
         \<and> (EventPage store s = NotFound \<longleftrightarrow> (\<forall>e\<in>set store. event.slug e \<noteq> s))"
proof -
  have none: "getEventBySlug store s = None \<longleftrightarrow> (\<forall>e\<in>set store. event.slug e \<noteq> s)"
    by (auto simp: getEventBySlug_def find_None_iff)
  have some: "getEventBySlug store s = Some e \<longleftrightarrow> e \<in> set store \<and> event.slug e = s"
    using assms unfolding getEventBySlug_def
  proof (induction store)
    case Nil
    then show ?case by simp
  next
    case (Cons a store)
    then show ?case by (auto simp: image_iff)
  qed
  have "EventPage store s = NotFound \<longleftrightarrow> getEventBySlug store s = None"
    by (simp add: EventPage_def split: option.splits)
  with none some show ?thesis by simp
qed

theorem getEventBySlug_unique_witness:
  "distinct (map event.slug example_store)
   \<and> getEventBySlug example_store ''jazz-evening'' = Some event_2
   \<and> getEventBySlug example_store ''missing'' = None
   \<and> EventPage example_store ''missing'' = NotFound"
proof -
  have d: "distinct (map event.slug example_store)"
    by (simp add: example_defs)
  have "getEventBySlug example_store ''jazz-evening'' = Some event_2"
    using getEventBySlug_unique [OF d, of "''jazz-evening''" event_2]
    by (simp add: example_defs)
  moreover have "getEventBySlug example_store ''missing'' = None"
    and "EventPage example_store ''missing'' = NotFound"
    using getEventBySlug_unique [OF d, of "''missing''" event_2]
    by (simp_all add: example_defs)
  ultimately show ?thesis using d by simp
qed

end
